theory Spec2Isabelle
  imports Main
begin

section \<open>Strings as the plugin uses them\<close>

text \<open>
  A JavaScript string is a sequence of UTF-16 code units. The text of an editor line is
  a list of code units, each a number; the functions below are defined on every such
  list. Names and paths in the vault are \<^typ>\<open>string\<close>s, a character being read as the
  code unit of the same number; \<open>utf16\<close> gives the code units of such a text and is
  used to write the literals of the plugin.
\<close>

type_synonym ustring = "nat list"

definition utf16 :: "string \<Rightarrow> ustring" where
  "utf16 s = map of_char s"

definition isMarker :: "nat \<Rightarrow> bool" where
  \<comment> \<open>the character class of the regular expression in \<open>removeFormatting\<close>:
      asterisk (42), underscore (95), tilde (126), backtick (96)\<close>
  "isMarker u = (u \<in> {42, 95, 126, 96})"

definition isSpace :: "nat \<Rightarrow> bool" where
  \<comment> \<open>the white space and line terminators that \<open>String.prototype.trim\<close> removes:
      U+0009 to U+000D, U+0020, U+00A0, U+1680, U+2000 to U+200A, U+2028, U+2029,
      U+202F, U+205F, U+3000, U+FEFF\<close>
  "isSpace u = (u \<in> {9, 10, 11, 12, 13, 32, 160, 5760, 8232, 8233, 8239, 8287, 12288, 65279}
                \<or> (8192 \<le> u \<and> u \<le> 8202))"

definition trim :: "ustring \<Rightarrow> ustring" where
  "trim s = rev (dropWhile isSpace (rev (dropWhile isSpace s)))"

definition startsWith :: "'a list \<Rightarrow> 'a list \<Rightarrow> bool" where
  \<comment> \<open>\<open>text.startsWith(p)\<close>\<close>
  "startsWith p text = (take (length p) text = p)"

definition endsWith :: "'a list \<Rightarrow> 'a list \<Rightarrow> bool" where
  \<comment> \<open>\<open>text.endsWith(p)\<close>\<close>
  "endsWith p text = (length p \<le> length text \<and> drop (length text - length p) text = p)"

definition trimmed :: "ustring \<Rightarrow> bool" where
  \<comment> \<open>a text with no white space at either end\<close>
  "trimmed s = (s = [] \<or> (\<not> isSpace (hd s) \<and> \<not> isSpace (last s)))"

text \<open>
  \<open>String.prototype.toUpperCase\<close> follows the case tables of Unicode, which belong to
  the JavaScript engine and not to the plugin: the function that calls it takes it as a
  parameter, and what is proved of that function holds for every case mapping. On a
  text of ASCII code units the engine's mapping turns the letters a to z into A to Z and
  leaves the rest; \<open>toUpperCaseASCII\<close> is that mapping, used below on ASCII texts only.
\<close>

definition toUpperCaseASCII :: "ustring \<Rightarrow> ustring" where
  "toUpperCaseASCII s = map (\<lambda>u. if 97 \<le> u \<and> u \<le> 122 then u - 32 else u) s"

section \<open>The editor\<close>

text \<open>
  The editor holds the lines of the document and a cursor that is always on one of them:
  the lines before the cursor's line, that line, and the lines after it.
  \<open>getLineAtCursor\<close> reads the line under the cursor; \<open>replaceLine\<close> replaces the range
  from column 0 to the end of that line, that is, the whole line.
\<close>

record editor =
  before :: "ustring list"
  line :: ustring
  after :: "ustring list"

definition getLineAtCursor :: "editor \<Rightarrow> ustring" where
  "getLineAtCursor ed = line ed"

definition replaceLine :: "editor \<Rightarrow> ustring \<Rightarrow> editor" where
  "replaceLine ed formattedText = ed\<lparr>line := formattedText\<rparr>"

section \<open>Style toggles\<close>

definition removeFormatting :: "ustring \<Rightarrow> ustring" where
  \<comment> \<open>every run of marker characters is replaced by the empty string, then the text is trimmed\<close>
  "removeFormatting text = trim (filter (\<lambda>u. \<not> isMarker u) text)"

definition toggleCharacterStyle :: "(ustring \<Rightarrow> ustring) \<Rightarrow> editor \<Rightarrow> editor" where
  "toggleCharacterStyle toUpperCase ed =
     (let text = getLineAtCursor ed;
          unformattedText = removeFormatting text
      in if startsWith (utf16 ''**'') text \<and> endsWith (utf16 ''**'') text
         then replaceLine ed unformattedText
         else replaceLine ed (utf16 ''**'' @ toUpperCase unformattedText @ utf16 ''**''))"

definition toggleStageDirectionStyle :: "editor \<Rightarrow> editor" where
  "toggleStageDirectionStyle ed =
     (let text = getLineAtCursor ed;
          unformattedText = removeFormatting text
      in if startsWith (utf16 ''*'') text \<and> endsWith (utf16 ''*'') text
         then replaceLine ed unformattedText
         else replaceLine ed (utf16 ''*'' @ unformattedText @ utf16 ''*''))"

definition applyDialogueStyle :: "editor \<Rightarrow> editor" where
  \<comment> \<open>the line is replaced by itself\<close>
  "applyDialogueStyle ed = (let text = getLineAtCursor ed in replaceLine ed text)"

section \<open>Settings and folder classification\<close>

text \<open>
  What the plugin reads of a file or folder of the vault: whether it is a file or a
  folder, its name and its path. A folder handed to an operation carries in addition
  its children and its parent (the vault root has none).
\<close>

datatype tabstractfile =
    is_TFile: TFile (name: string) (path: string)
  | is_TFolder: TFolder (name: string) (path: string)

datatype tfolder =
  Folder (self: tabstractfile) (children: "tabstractfile list") (parent: "tfolder option")

text \<open>
  The setting \<open>writingFolder\<close> is a string or null. JavaScript's \<open>!this.writingFolder\<close>
  holds for null and for the empty string.
\<close>

definition falsy :: "string option \<Rightarrow> bool" where
  "falsy w = (case w of None \<Rightarrow> True | Some s \<Rightarrow> s = [])"

definition isWritingFolder :: "string option \<Rightarrow> tfolder \<Rightarrow> bool" where
  "isWritingFolder writingFolder folder =
     (if falsy writingFolder then path (self folder) = ''/''
      else Some (path (self folder)) = writingFolder)"

definition isProjectFolder :: "string option \<Rightarrow> tfolder \<Rightarrow> bool" where
  "isProjectFolder writingFolder folder =
     (case parent folder of
        None \<Rightarrow> False
      | Some parentFolder \<Rightarrow> isWritingFolder writingFolder parentFolder)"

definition saveSettings :: "string \<Rightarrow> string option" where
  \<comment> \<open>the value of \<open>writingFolder\<close> after \<open>saveSettings({writingFolder: v})\<close>\<close>
  "saveSettings v = Some v"

definition onChange :: "string \<Rightarrow> string option" where
  \<comment> \<open>the settings text field: the value, trimmed as the string of its code units, is saved\<close>
  "onChange v = saveSettings (map char_of (trim (utf16 v)))"

definition isDigit :: "char \<Rightarrow> bool" where
  "isDigit c = (48 \<le> (of_char c :: nat) \<and> (of_char c :: nat) \<le> 57)"

definition isVersionFolder :: "tabstractfile \<Rightarrow> bool" where
  \<comment> \<open>the name is the letter v followed by exactly four digits\<close>
  "isVersionFolder folder =
     (case name folder of
        [c0, c1, c2, c3, c4] \<Rightarrow>
          c0 = CHR ''v'' \<and> isDigit c1 \<and> isDigit c2 \<and> isDigit c3 \<and> isDigit c4
      | _ \<Rightarrow> False)"

section \<open>Numbers in names\<close>

definition digitChar :: "nat \<Rightarrow> char" where
  "digitChar d = char_of (48 + d)"

function toString :: "nat \<Rightarrow> string" where
  "toString n = (if n < 10 then [digitChar n] else toString (n div 10) @ [digitChar (n mod 10)])"
  by pat_completeness auto
termination
  by (relation "measure (\<lambda>n. n)") auto

declare toString.simps [simp del]

definition padStart :: "nat \<Rightarrow> char \<Rightarrow> string \<Rightarrow> string" where
  \<comment> \<open>\<open>s.padStart(n, c)\<close> for a one-character filler\<close>
  "padStart n c s = replicate (n - length s) c @ s"

definition decimal :: "string \<Rightarrow> nat" where
  \<comment> \<open>the number a string of digits denotes\<close>
  "decimal ds = foldl (\<lambda>a c. 10 * a + ((of_char c :: nat) - 48)) 0 ds"

definition includesText :: "string \<Rightarrow> string \<Rightarrow> bool" where
  \<comment> \<open>\<open>s.includes(p)\<close>: \<open>p\<close> occurs in \<open>s\<close> at some offset\<close>
  "includesText p s = list_ex (\<lambda>i. take (length p) (drop i s) = p) [0 ..< Suc (length s)]"

section \<open>The vault\<close>

text \<open>
  The host's vault is reached through three calls: creating a folder, creating a file with
  a content, and reading a file. Each either succeeds or raises a host-level error, and a
  call that raises leaves the vault as it was. The state of the vault is any type \<open>'s\<close>.
  \<open>TypeError\<close> is what JavaScript itself raises when a property of null is read, as for
  the parent of the vault root.
\<close>

datatype error = AlreadyExists string | IOFailure string | TypeError

record 's vault =
  createFolder :: "string \<Rightarrow> 's \<Rightarrow> error + (tabstractfile \<times> 's)"
  create :: "string \<Rightarrow> string \<Rightarrow> 's \<Rightarrow> error + 's"
  read :: "tabstractfile \<Rightarrow> 's \<Rightarrow> error + string"

text \<open>
  An operation returns the vault as it is when the operation ends, together with either
  the error that ended it or the text of the notice it shows.
\<close>

definition createNewVersionFolder :: "'s vault \<Rightarrow> tfolder \<Rightarrow> 's \<Rightarrow> 's \<times> (error + string)" where
  "createNewVersionFolder app folder s =
     (let versionFolders = filter (\<lambda>f. is_TFolder f \<and> isVersionFolder f) (children folder);
          nextVersionNumber = length versionFolders + 1;
          newVersionFolderName = ''v'' @ padStart 4 (CHR ''0'') (toString nextVersionNumber)
      in case createFolder app (path (self folder) @ ''/'' @ newVersionFolderName) s of
           Inl e \<Rightarrow> (s, Inl e)
         | Inr (nextVersionFolder, s1) \<Rightarrow>
      (case create app (path nextVersionFolder @ ''/'' @ newVersionFolderName @ ''_0_title_page.md'')
              ''# Title Page'' s1 of
           Inl e \<Rightarrow> (s1, Inl e)
         | Inr s2 \<Rightarrow>
      (case create app (path nextVersionFolder @ ''/'' @ newVersionFolderName @ ''_0_notes.md'')
              ''# Notes'' s2 of
           Inl e \<Rightarrow> (s2, Inl e)
         | Inr s3 \<Rightarrow>
      (case create app (path nextVersionFolder @ ''/'' @ newVersionFolderName @ ''_scene0001.md'')
              ''# Scene 1'' s3 of
           Inl e \<Rightarrow> (s3, Inl e)
         | Inr s4 \<Rightarrow>
             (s4, Inr (''Version '' @ toString nextVersionNumber @ '' Created''))))))"

definition createNewScene :: "'s vault \<Rightarrow> tfolder \<Rightarrow> 's \<Rightarrow> 's \<times> (error + string)" where
  "createNewScene app folder s =
     (let sceneFiles = filter (\<lambda>f. is_TFile f \<and> includesText ''scene'' (name f)) (children folder);
          nextSceneNumber = length sceneFiles + 1;
          newSceneFileName = path (self folder) @ ''/'' @ ''v'' @ drop 1 (name (self folder))
            @ ''_scene'' @ padStart 4 (CHR ''0'') (toString nextSceneNumber) @ ''.md''
      in case create app newSceneFileName (''# Scene '' @ toString nextSceneNumber) s of
           Inl e \<Rightarrow> (s, Inl e)
         | Inr s1 \<Rightarrow> (s1, Inr (''Scene '' @ toString nextSceneNumber @ '' Created'')))"

subsection \<open>Duplicating a version folder (the earliest revision of the plugin)\<close>

text \<open>
  \<open>name.replace(pattern, replacement)\<close> with a string pattern replaces the first
  occurrence of the pattern only. In the replacement, a dollar sign followed by a dollar
  sign, an ampersand, a backtick or a quote stands for a dollar sign, the matched text,
  the text before the match and the text after it.
\<close>

fun getSubstitution :: "string \<Rightarrow> string \<Rightarrow> string \<Rightarrow> string \<Rightarrow> string" where
  "getSubstitution matched pre post [] = []"
| "getSubstitution matched pre post [c] = [c]"
| "getSubstitution matched pre post (c # d # r) =
     (if c = CHR ''$'' \<and> d = CHR ''$'' then CHR ''$'' # getSubstitution matched pre post r
      else if c = CHR ''$'' \<and> d = CHR ''&'' then matched @ getSubstitution matched pre post r
      else if c = CHR ''$'' \<and> of_char d = (96 :: nat) then pre @ getSubstitution matched pre post r
      else if c = CHR ''$'' \<and> of_char d = (39 :: nat) then post @ getSubstitution matched pre post r
      else c # getSubstitution matched pre post (d # r))"

fun replaceFrom :: "string \<Rightarrow> string \<Rightarrow> string \<Rightarrow> string \<Rightarrow> string" where
  "replaceFrom pre [] pat rep =
     (if pat = [] then pre @ getSubstitution pat pre [] rep else pre)"
| "replaceFrom pre (c # cs) pat rep =
     (if take (length pat) (c # cs) = pat
      then pre @ getSubstitution pat pre (drop (length pat) (c # cs)) rep
             @ drop (length pat) (c # cs)
      else replaceFrom (pre @ [c]) cs pat rep)"

definition replace :: "string \<Rightarrow> string \<Rightarrow> string \<Rightarrow> string" where
  \<comment> \<open>\<open>s.replace(pat, rep)\<close>\<close>
  "replace s pat rep = replaceFrom [] s pat rep"

fun copyFiles ::
  "'s vault \<Rightarrow> tfolder \<Rightarrow> tabstractfile \<Rightarrow> tabstractfile list \<Rightarrow> 's \<Rightarrow> 's \<times> (error + unit)" where
  "copyFiles app folder newVersionFolder [] s = (s, Inr ())"
| "copyFiles app folder newVersionFolder (file # files) s =
     (if is_TFile file then
        (let newFileName = replace (name file) (name (self folder)) (name newVersionFolder)
         in case read app file s of
              Inl e \<Rightarrow> (s, Inl e)
            | Inr content \<Rightarrow>
                (case create app (path newVersionFolder @ ''/'' @ newFileName) content s of
                   Inl e \<Rightarrow> (s, Inl e)
                 | Inr s1 \<Rightarrow> copyFiles app folder newVersionFolder files s1))
      else copyFiles app folder newVersionFolder files s)"

definition duplicateVersionFolder :: "'s vault \<Rightarrow> tfolder \<Rightarrow> 's \<Rightarrow> 's \<times> (error + string)" where
  "duplicateVersionFolder app folder s =
     (case parent folder of
        None \<Rightarrow> (s, Inl TypeError)
      | Some parentFolder \<Rightarrow>
     (let versionFolders =
            filter (\<lambda>f. is_TFolder f \<and> startsWith ''v'' (name f)) (children parentFolder);
          nextVersionNumber = length versionFolders + 1
      in case createFolder app
                (path (self parentFolder) @ ''/v'' @ padStart 4 (CHR ''0'') (toString nextVersionNumber)) s of
           Inl e \<Rightarrow> (s, Inl e)
         | Inr (newVersionFolder, s1) \<Rightarrow>
             (case copyFiles app folder newVersionFolder (children folder) s1 of
                (s2, Inl e) \<Rightarrow> (s2, Inl e)
              | (s2, Inr u) \<Rightarrow>
                  (s2, Inr (''Version '' @ toString nextVersionNumber @ '' Duplicated'')))))"

section \<open>A vault held in memory\<close>

text \<open>
  The entries of a vault, in the order of their creation: each has a path and is a folder
  or a file with its content. The root folder has the path \<open>/\<close> and is not an entry; an
  entry whose path has no slash lies in the root. The name of an entry is the last
  segment of its path, and its parent is the folder at the path before that segment.
  Creating an entry at a path that is taken raises \<open>AlreadyExists\<close>, as the host does
  on a path collision; a path is stored as it is given. Reading a path that holds no
  file raises an I/O failure.
\<close>

datatype node = FolderNode | FileNode string

type_synonym store = "(string \<times> node) list"

definition basename :: "string \<Rightarrow> string" where
  "basename p = rev (takeWhile (\<lambda>c. c \<noteq> CHR ''/'') (rev p))"

definition dirname :: "string \<Rightarrow> string" where
  "dirname p =
     (let d = rev (drop 1 (dropWhile (\<lambda>c. c \<noteq> CHR ''/'') (rev p)))
      in if d = [] then ''/'' else d)"

definition handle :: "string \<times> node \<Rightarrow> tabstractfile" where
  "handle e = (case snd e of
                 FolderNode \<Rightarrow> TFolder (basename (fst e)) (fst e)
               | FileNode c \<Rightarrow> TFile (basename (fst e)) (fst e))"

definition listing :: "store \<Rightarrow> string \<Rightarrow> tabstractfile list" where
  \<comment> \<open>the children of the folder at a path\<close>
  "listing st p = map handle (filter (\<lambda>e. dirname (fst e) = p) st)"

function getFolder :: "store \<Rightarrow> string \<Rightarrow> tfolder" where
  "getFolder st p =
     Folder (TFolder (basename p) p) (listing st p)
       (if p = ''/'' then None else Some (getFolder st (dirname p)))"
  by pat_completeness auto
termination
proof (relation "measure (\<lambda>(st, p). if p = ''/'' then 0 else Suc (length p))")
  show "wf (measure (\<lambda>(st :: store, p). if p = ''/'' then 0 else Suc (length p)))"
    by simp
next
  fix st :: store and p :: string
  assume "p \<noteq> ''/''"
  let ?r = "dropWhile (\<lambda>c. c \<noteq> CHR ''/'') (rev p)"
  have "length ?r \<le> length p"
    using length_dropWhile_le [of "\<lambda>c. c \<noteq> CHR ''/''" "rev p"] by simp
  then have "drop 1 ?r \<noteq> [] \<Longrightarrow> length (drop 1 ?r) < length p"
    by (cases ?r) auto
  then show "((st, dirname p), (st, p))
      \<in> measure (\<lambda>(st, p). if p = ''/'' then 0 else Suc (length p))"
    using \<open>p \<noteq> ''/''\<close> by (auto simp: dirname_def Let_def)
qed

declare getFolder.simps [simp del]

definition store_createFolder :: "string \<Rightarrow> store \<Rightarrow> error + (tabstractfile \<times> store)" where
  "store_createFolder p st =
     (if p \<in> set (map fst st) then Inl (AlreadyExists p)
      else Inr (TFolder (basename p) p, st @ [(p, FolderNode)]))"

definition store_create :: "string \<Rightarrow> string \<Rightarrow> store \<Rightarrow> error + store" where
  "store_create p content st =
     (if p \<in> set (map fst st) then Inl (AlreadyExists p)
      else Inr (st @ [(p, FileNode content)]))"

definition store_read :: "tabstractfile \<Rightarrow> store \<Rightarrow> error + string" where
  "store_read f st =
     (case map_of st (path f) of
        Some (FileNode content) \<Rightarrow> Inr content
      | _ \<Rightarrow> Inl (IOFailure (path f)))"

definition store_vault :: "store vault" where
  "store_vault = \<lparr>createFolder = store_createFolder, create = store_create, read = store_read\<rparr>"

definition fresh :: "store \<Rightarrow> string \<Rightarrow> bool" where
  \<comment> \<open>nothing exists at the path or directly under it\<close>
  "fresh st p = list_all (\<lambda>e. fst e \<noteq> p \<and> dirname (fst e) \<noteq> p) st"

definition full_vault :: "nat \<Rightarrow> store vault" where
  \<comment> \<open>a vault on a device that holds at most \<open>n\<close> entries: a creation beyond that raises
      an I/O failure\<close>
  "full_vault n =
     \<lparr>createFolder = (\<lambda>p st. if n \<le> length st then Inl (IOFailure p) else store_createFolder p st),
      create = (\<lambda>p c st. if n \<le> length st then Inl (IOFailure p) else store_create p c st),
      read = store_read\<rparr>"

section \<open>Properties of the string functions\<close>

lemmas style_defs = toggleStageDirectionStyle_def applyDialogueStyle_def
  getLineAtCursor_def replaceLine_def removeFormatting_def trim_def isSpace_def isMarker_def
  startsWith_def endsWith_def toUpperCaseASCII_def utf16_def Let_def

lemma set_trim: "set (trim s) \<subseteq> set s"
proof
  fix x
  assume "x \<in> set (trim s)"
  then have "x \<in> set (dropWhile isSpace (rev (dropWhile isSpace s)))"
    by (simp add: trim_def)
  then have "x \<in> set (rev (dropWhile isSpace s))"
    by (rule set_dropWhileD)
  then have "x \<in> set (dropWhile isSpace s)"
    by simp
  then show "x \<in> set s"
    by (rule set_dropWhileD)
qed

lemma trimmed_trim: "trimmed (trim s)"
proof (cases "trim s = []")
  case True
  then show ?thesis by (simp add: trimmed_def)
next
  case False
  let ?a = "dropWhile isSpace s"
  let ?b = "dropWhile isSpace (rev ?a)"
  have t: "trim s = rev ?b" by (simp add: trim_def)
  with False have b: "?b \<noteq> []" by simp
  then have hb: "\<not> isSpace (hd ?b)" by (rule hd_dropWhile)
  have a: "?a \<noteq> []"
  proof
    assume e: "?a = []"
    have "?b = dropWhile isSpace (rev [])" by (simp only: e)
    with b show False by simp
  qed
  then have ha: "\<not> isSpace (hd ?a)" by (rule hd_dropWhile)
  have "hd ?b \<in> set (rev ?a)"
    using b by (meson hd_in_set set_dropWhileD)
  then have "last ?b = last (rev ?a)"
    using hb by (rule dropWhile_last)
  then have "last ?b = hd ?a"
    using a by (simp add: last_rev)
  then have "hd (trim s) = hd ?a"
    using b by (simp add: t hd_rev)
  moreover have "last (trim s) = hd ?b"
    using b by (simp add: t last_rev)
  ultimately show ?thesis
    using ha hb by (simp add: trimmed_def)
qed


lemma trim_decomp: "\<exists>l r. list_all isSpace l \<and> list_all isSpace r \<and> s = l @ trim s @ r"
proof -
  let ?a = "dropWhile isSpace s"
  have 1: "s = takeWhile isSpace s @ ?a" by simp
  have "rev ?a = takeWhile isSpace (rev ?a) @ dropWhile isSpace (rev ?a)" by simp
  then have "?a = rev (dropWhile isSpace (rev ?a)) @ rev (takeWhile isSpace (rev ?a))"
    by (metis rev_append rev_rev_ident)
  then have 3: "?a = trim s @ rev (takeWhile isSpace (rev ?a))"
    by (simp add: trim_def)
  have 4: "list_all isSpace (takeWhile isSpace s)"
    by (simp add: list_all_iff) (metis set_takeWhileD)
  have 5: "list_all isSpace (rev (takeWhile isSpace (rev ?a)))"
    by (simp add: list_all_iff) (metis set_takeWhileD)
  from 1 3 4 5 show ?thesis by metis
qed

lemma removeFormatting_no_marker: "list_all (\<lambda>u. \<not> isMarker u) (removeFormatting text)"
proof -
  have "set (removeFormatting text) \<subseteq> set (filter (\<lambda>u. \<not> isMarker u) text)"
    unfolding removeFormatting_def by (rule set_trim)
  then show ?thesis by (auto simp: list_all_iff)
qed

lemma removeFormatting_trimmed: "trimmed (removeFormatting text)"
  by (simp add: removeFormatting_def trimmed_trim)





lemma toggleCharacterStyle_line:
  "getLineAtCursor (toggleCharacterStyle toUpperCase ed) =
     (if startsWith (utf16 ''**'') (getLineAtCursor ed) \<and> endsWith (utf16 ''**'') (getLineAtCursor ed)
      then removeFormatting (getLineAtCursor ed)
      else utf16 ''**'' @ toUpperCase (removeFormatting (getLineAtCursor ed)) @ utf16 ''**'')"
  by (simp add: toggleCharacterStyle_def getLineAtCursor_def replaceLine_def Let_def)

lemma toggleStageDirectionStyle_line:
  "getLineAtCursor (toggleStageDirectionStyle ed) =
     (if startsWith (utf16 ''*'') (getLineAtCursor ed) \<and> endsWith (utf16 ''*'') (getLineAtCursor ed)
      then removeFormatting (getLineAtCursor ed)
      else utf16 ''*'' @ removeFormatting (getLineAtCursor ed) @ utf16 ''*'')"
  by (simp add: toggleStageDirectionStyle_def getLineAtCursor_def replaceLine_def Let_def)

section \<open>Claims about the style toggles\<close>




text \<open>
  C3: Dialogue style replaces the line by itself, so a line with emphasis markers keeps
  them: on \<open>**HELLO**\<close> the result is \<open>**HELLO**\<close>, which still holds four marker
  characters.
\<close>

theorem applyDialogueStyle_keeps_markers:
  "getLineAtCursor (applyDialogueStyle \<lparr>before = [], line = utf16 ''**HELLO**'', after = []\<rparr>)
     = utf16 ''**HELLO**''
   \<and> length (filter isMarker (getLineAtCursor
         (applyDialogueStyle \<lparr>before = [], line = utf16 ''**HELLO**'', after = []\<rparr>))) = 4"
  by (simp add: style_defs)

text \<open>
  C6: Stage-Direction style on the bold-wrapped line \<open>**HELLO**\<close>, which is not italic,
  takes the unwrap branch and leaves \<open>HELLO\<close> with no italic pair; so does the line that
  is a single asterisk.
\<close>

theorem toggleStageDirectionStyle_unwraps_bold:
  "getLineAtCursor (toggleStageDirectionStyle \<lparr>before = [], line = utf16 ''**HELLO**'', after = []\<rparr>)
     = utf16 ''HELLO''
   \<and> getLineAtCursor (toggleStageDirectionStyle \<lparr>before = [], line = utf16 ''*'', after = []\<rparr>) = []"
  by (simp add: style_defs)

text \<open>
  C9: for every string of code units, the result of \<open>removeFormatting\<close> holds no marker
  character (asterisk, underscore, tilde, backtick), wherever they stood in the input,
  and no white space at either end; it is the input with its marker characters deleted,
  less white space at the two ends. The line that the Character toggle writes is that
  result, bare or passed to the engine's case mapping and wrapped in one bold pair; the
  line that the Stage-Direction toggle writes is that result, bare or wrapped in one
  italic pair. So the markers inside the line are deleted, not kept.
\<close>

theorem removeFormatting_deletes_markers:
  "list_all (\<lambda>u. \<not> isMarker u) (removeFormatting text)
   \<and> trimmed (removeFormatting text)
   \<and> (\<exists>l r. list_all isSpace l \<and> list_all isSpace r
         \<and> filter (\<lambda>u. \<not> isMarker u) text = l @ removeFormatting text @ r)
   \<and> (getLineAtCursor (toggleCharacterStyle toUpperCase ed) = removeFormatting (getLineAtCursor ed)
        \<or> getLineAtCursor (toggleCharacterStyle toUpperCase ed)
             = utf16 ''**'' @ toUpperCase (removeFormatting (getLineAtCursor ed)) @ utf16 ''**'')
   \<and> (getLineAtCursor (toggleStageDirectionStyle ed) = removeFormatting (getLineAtCursor ed)
        \<or> getLineAtCursor (toggleStageDirectionStyle ed)
             = utf16 ''*'' @ removeFormatting (getLineAtCursor ed) @ utf16 ''*'')"
proof -
  have "\<exists>l r. list_all isSpace l \<and> list_all isSpace r
         \<and> filter (\<lambda>u. \<not> isMarker u) text = l @ removeFormatting text @ r"
    unfolding removeFormatting_def by (rule trim_decomp)
  moreover have "getLineAtCursor (toggleCharacterStyle toUpperCase ed) = removeFormatting (getLineAtCursor ed)
        \<or> getLineAtCursor (toggleCharacterStyle toUpperCase ed)
             = utf16 ''**'' @ toUpperCase (removeFormatting (getLineAtCursor ed)) @ utf16 ''**''"
    by (simp add: toggleCharacterStyle_line)
  moreover have "getLineAtCursor (toggleStageDirectionStyle ed) = removeFormatting (getLineAtCursor ed)
        \<or> getLineAtCursor (toggleStageDirectionStyle ed)
             = utf16 ''*'' @ removeFormatting (getLineAtCursor ed) @ utf16 ''*''"
    by (simp add: toggleStageDirectionStyle_line)
  ultimately show ?thesis
    using removeFormatting_no_marker [of "text"] removeFormatting_trimmed [of "text"]
    by blast
qed

theorem removeFormatting_deletes_markers_witness:
  "removeFormatting ([160, 65279] @ utf16 ''  snake_case *x* ~~y~~  '' @ [8232, 12288])
     = utf16 ''snakecase x y''
   \<and> getLineAtCursor (toggleCharacterStyle toUpperCaseASCII
        \<lparr>before = [], line = utf16 ''snake_case'', after = []\<rparr>) = utf16 ''**SNAKECASE**''
   \<and> getLineAtCursor (toggleStageDirectionStyle
        \<lparr>before = [], line = utf16 ''snake_case'', after = []\<rparr>) = utf16 ''*snakecase*''
   \<and> list_all (\<lambda>u. \<not> isMarker u)
        (removeFormatting ([160, 65279] @ utf16 ''  snake_case *x* ~~y~~  '' @ [8232, 12288]))"
proof -
  have a: "removeFormatting ([160, 65279] @ utf16 ''  snake_case *x* ~~y~~  '' @ [8232, 12288])
     = utf16 ''snakecase x y''"
    by (simp add: style_defs)
  have b: "getLineAtCursor (toggleCharacterStyle toUpperCaseASCII
        \<lparr>before = [], line = utf16 ''snake_case'', after = []\<rparr>) = utf16 ''**SNAKECASE**''"
    by (simp add: toggleCharacterStyle_def style_defs)
  have c: "getLineAtCursor (toggleStageDirectionStyle
        \<lparr>before = [], line = utf16 ''snake_case'', after = []\<rparr>) = utf16 ''*snakecase*''"
    by (simp add: style_defs)
  have d: "list_all (\<lambda>u. \<not> isMarker u)
        (removeFormatting ([160, 65279] @ utf16 ''  snake_case *x* ~~y~~  '' @ [8232, 12288]))"
    using removeFormatting_deletes_markers
      [of "[160, 65279] @ utf16 ''  snake_case *x* ~~y~~  '' @ [8232, 12288]"]
    by (rule conjunct1)
  show ?thesis
    by (rule conjI [OF a conjI [OF b conjI [OF c d]]])
qed

section \<open>Claims about the writing folder\<close>

text \<open>
  C10: with the writing-folder setting equal to the empty string (what the settings field
  saves when it is cleared), \<open>isWritingFolder\<close> answers as with no setting at all: it
  accepts exactly the folder whose path is the vault root \<open>/\<close>; and \<open>isProjectFolder\<close>
  accepts exactly the folders whose parent is the vault root.
\<close>

theorem isWritingFolder_empty_setting:
  "onChange [] = Some []
   \<and> isWritingFolder (Some []) folder = isWritingFolder None folder
   \<and> isWritingFolder (Some []) folder = (path (self folder) = ''/'')
   \<and> isProjectFolder (Some []) folder = isProjectFolder None folder
   \<and> isProjectFolder (Some []) folder
       = (\<exists>parentFolder. parent folder = Some parentFolder \<and> path (self parentFolder) = ''/'')"
proof -
  have saved: "onChange [] = Some []"
    by (simp add: onChange_def saveSettings_def trim_def utf16_def)
  have w: "isWritingFolder (Some []) f = (path (self f) = ''/'')"
    "isWritingFolder None f = (path (self f) = ''/'')" for f
    by (simp_all add: isWritingFolder_def falsy_def)
  have p: "isProjectFolder ws folder
      = (\<exists>parentFolder. parent folder = Some parentFolder \<and> isWritingFolder ws parentFolder)" for ws
    by (cases "parent folder") (simp_all add: isProjectFolder_def)
  show ?thesis
    by (simp add: saved w p)
qed

section \<open>Properties of names and numbers\<close>

lemma isDigit_digitChar: "d < 10 \<Longrightarrow> isDigit (digitChar d)"
  by (simp add: isDigit_def digitChar_def)

lemma of_char_digitChar: "d < 10 \<Longrightarrow> (of_char (digitChar d) :: nat) = 48 + d"
  by (simp add: digitChar_def)

lemma toString_digits: "list_all isDigit (toString n)"
proof (induction n rule: toString.induct)
  case (1 n)
  show ?case
  proof (cases "n < 10")
    case True
    then show ?thesis by (simp add: toString.simps [of n] isDigit_digitChar)
  next
    case False
    then show ?thesis
      using 1 by (simp add: toString.simps [of n] isDigit_digitChar)
  qed
qed

lemma decimal_snoc: "decimal (ds @ [c]) = 10 * decimal ds + ((of_char c :: nat) - 48)"
  by (simp add: decimal_def)

lemma decimal_toString: "decimal (toString n) = n"
proof (induction n rule: toString.induct)
  case (1 n)
  show ?case
  proof (cases "n < 10")
    case True
    then show ?thesis
      by (simp add: toString.simps [of n] decimal_def of_char_digitChar)
  next
    case False
    then have "decimal (toString (n div 10)) = n div 10" using 1 by simp
    then show ?thesis
      using False by (simp add: toString.simps [of n] decimal_snoc of_char_digitChar)
  qed
qed

lemma decimal_zeros: "decimal (replicate j (CHR ''0'') @ ds) = decimal ds"
  by (induction j) (simp_all add: decimal_def)

lemma decimal_padStart: "decimal (padStart w (CHR ''0'') (toString n)) = n"
  by (simp add: padStart_def decimal_zeros decimal_toString)

lemma padStart_digits: "list_all isDigit (padStart w (CHR ''0'') (toString n))"
  using toString_digits [of n] by (auto simp: padStart_def list_all_iff isDigit_def)

lemma length_padStart: "length (padStart w c s) = max w (length s)"
  by (simp add: padStart_def)

lemma length_toString: "n < 10 ^ w \<Longrightarrow> 0 < w \<Longrightarrow> length (toString n) \<le> w"
proof (induction n arbitrary: w rule: toString.induct)
  case (1 n)
  show ?case
  proof (cases "n < 10")
    case True
    then show ?thesis using 1(3) by (simp add: toString.simps [of n])
  next
    case False
    then obtain v where w: "w = Suc v" using 1(3) by (cases w) auto
    with False 1(2) have "0 < v" by (cases v) auto
    moreover have "n div 10 < 10 ^ v" using 1(2) w by (simp add: less_mult_imp_div_less)
    ultimately have "length (toString (n div 10)) \<le> v" using 1(1) False by simp
    then show ?thesis using False w by (simp add: toString.simps [of n])
  qed
qed

lemma isDigit_not_slash: "isDigit c \<Longrightarrow> c \<noteq> CHR ''/''"
  by (auto simp: isDigit_def)

lemma dirname_join:
  assumes "CHR ''/'' \<notin> set f"
  shows "dirname (d @ ''/'' @ f) = (if d = [] then ''/'' else d)"
proof -
  have "dropWhile (\<lambda>c. c \<noteq> CHR ''/'') (rev f @ CHR ''/'' # rev d) = CHR ''/'' # rev d"
    using assms by (auto simp: dropWhile_append3)
  then show ?thesis by (simp add: dirname_def)
qed

lemma basename_join:
  assumes "CHR ''/'' \<notin> set f"
  shows "basename (d @ ''/'' @ f) = f"
proof -
  have "takeWhile (\<lambda>c. c \<noteq> CHR ''/'') (rev f @ CHR ''/'' # rev d) = rev f"
    using assms by (auto simp: takeWhile_tail)
  then show ?thesis by (simp add: basename_def)
qed

lemma children_getFolder: "children (getFolder st p) = listing st p"
  by (subst getFolder.simps) simp

lemma self_getFolder: "self (getFolder st p) = TFolder (basename p) p"
  by (subst getFolder.simps) simp

lemma parent_getFolder:
  "parent (getFolder st p) = (if p = ''/'' then None else Some (getFolder st (dirname p)))"
  by (subst getFolder.simps) simp

section \<open>Creating in the vault held in memory\<close>

lemma store_vault_sel:
  "createFolder store_vault = store_createFolder"
  "create store_vault = store_create"
  "read store_vault = store_read"
  by (simp_all add: store_vault_def)

lemma store_create_new:
  "p \<notin> fst ` set st \<Longrightarrow> store_create p c st = Inr (st @ [(p, FileNode c)])"
  by (simp add: store_create_def)

lemma store_createFolder_new:
  "p \<notin> fst ` set st \<Longrightarrow>
     store_createFolder p st = Inr (TFolder (basename p) p, st @ [(p, FolderNode)])"
  by (simp add: store_createFolder_def)

lemma fresh_not_in: "fresh st d \<Longrightarrow> d \<notin> fst ` set st"
  by (auto simp: fresh_def list_all_iff)

lemma fresh_child_not_in:
  assumes "fresh st d" and "CHR ''/'' \<notin> set f" and "d \<noteq> []"
  shows "d @ ''/'' @ f \<notin> fst ` set st"
proof
  assume "d @ ''/'' @ f \<in> fst ` set st"
  then obtain e where e: "e \<in> set st" "fst e = d @ ''/'' @ f" by auto
  then have "dirname (fst e) = d"
    using dirname_join [OF assms(2), of d] assms(3) by simp
  with assms(1) e(1) show False
    by (auto simp: fresh_def list_all_iff)
qed

lemma fresh_listing: "fresh st d \<Longrightarrow> listing st d = []"
  by (auto simp: fresh_def listing_def list_all_iff filter_empty_conv)

lemma listing_append: "listing (st @ st') d = listing st d @ listing st' d"
  by (simp add: listing_def)

lemma listing_file:
  assumes "CHR ''/'' \<notin> set f" and "d \<noteq> []"
  shows "listing [(d @ ''/'' @ f, FileNode c)] d = [TFile f (d @ ''/'' @ f)]"
proof -
  have "dirname (d @ ''/'' @ f) = d" "basename (d @ ''/'' @ f) = f"
    using dirname_join [OF assms(1), of d] basename_join [OF assms(1), of d] assms(2) by simp_all
  then show ?thesis
    by (simp add: listing_def handle_def)
qed

lemma createNewVersionFolder_steps:
  fixes app :: "'s vault"
  assumes "nm = ''v'' @ padStart 4 (CHR ''0'')
      (toString (length (filter (\<lambda>f. is_TFolder f \<and> isVersionFolder f) (children folder)) + 1))"
  shows "(createFolder app (path (self folder) @ ''/'' @ nm) s = Inl e
            \<longrightarrow> createNewVersionFolder app folder s = (s, Inl e))
       \<and> (createFolder app (path (self folder) @ ''/'' @ nm) s = Inr (d, s1)
          \<and> create app (path d @ ''/'' @ nm @ ''_0_title_page.md'') ''# Title Page'' s1 = Inl e
            \<longrightarrow> createNewVersionFolder app folder s = (s1, Inl e))
       \<and> (createFolder app (path (self folder) @ ''/'' @ nm) s = Inr (d, s1)
          \<and> create app (path d @ ''/'' @ nm @ ''_0_title_page.md'') ''# Title Page'' s1 = Inr s2
          \<and> create app (path d @ ''/'' @ nm @ ''_0_notes.md'') ''# Notes'' s2 = Inl e
            \<longrightarrow> createNewVersionFolder app folder s = (s2, Inl e))
       \<and> (createFolder app (path (self folder) @ ''/'' @ nm) s = Inr (d, s1)
          \<and> create app (path d @ ''/'' @ nm @ ''_0_title_page.md'') ''# Title Page'' s1 = Inr s2
          \<and> create app (path d @ ''/'' @ nm @ ''_0_notes.md'') ''# Notes'' s2 = Inr s3
          \<and> create app (path d @ ''/'' @ nm @ ''_scene0001.md'') ''# Scene 1'' s3 = Inl e
            \<longrightarrow> createNewVersionFolder app folder s = (s3, Inl e))
       \<and> (createFolder app (path (self folder) @ ''/'' @ nm) s = Inr (d, s1)
          \<and> create app (path d @ ''/'' @ nm @ ''_0_title_page.md'') ''# Title Page'' s1 = Inr s2
          \<and> create app (path d @ ''/'' @ nm @ ''_0_notes.md'') ''# Notes'' s2 = Inr s3
          \<and> create app (path d @ ''/'' @ nm @ ''_scene0001.md'') ''# Scene 1'' s3 = Inr s4
            \<longrightarrow> createNewVersionFolder app folder s
                  = (s4, Inr (''Version '' @ toString (length (filter
                       (\<lambda>f. is_TFolder f \<and> isVersionFolder f) (children folder)) + 1) @ '' Created'')))"
  unfolding createNewVersionFolder_def Let_def assms
  by (simp only: append_assoc) simp

lemma version_name_no_slash: "CHR ''/'' \<notin> set (''v'' @ padStart w (CHR ''0'') (toString n))"
  using padStart_digits [of w n] isDigit_not_slash
  by (auto simp: list_all_iff)

lemma four_digits_version:
  assumes "length num = 4" and "list_all isDigit num"
  shows "isVersionFolder (TFolder (''v'' @ num) d)"
proof -
  from assms(1) obtain a b c e where "num = [a, b, c, e]"
    by (auto simp: eval_nat_numeral length_Suc_conv)
  with assms(2) show ?thesis
    by (simp add: isVersionFolder_def)
qed

lemma createNewVersionFolder_store:
  fixes st :: store
  assumes k: "length (filter (\<lambda>f. is_TFolder f \<and> isVersionFolder f) (children (getFolder st p))) = k"
    and num: "num = padStart 4 (CHR ''0'') (toString (k + 1))"
    and dir: "dir = p @ ''/v'' @ num"
    and free: "fresh st dir"
  shows "createNewVersionFolder store_vault (getFolder st p) st =
           (st @ [(dir, FolderNode),
                  (dir @ ''/v'' @ num @ ''_0_title_page.md'', FileNode ''# Title Page''),
                  (dir @ ''/v'' @ num @ ''_0_notes.md'', FileNode ''# Notes''),
                  (dir @ ''/v'' @ num @ ''_scene0001.md'', FileNode ''# Scene 1'')],
            Inr (''Version '' @ toString (k + 1) @ '' Created''))"
proof -
  define nm where "nm = ''v'' @ num"
  define f1 where "f1 = nm @ ''_0_title_page.md''"
  define f2 where "f2 = nm @ ''_0_notes.md''"
  define f3 where "f3 = nm @ ''_scene0001.md''"
  define s1 where "s1 = st @ [(dir, FolderNode)]"
  define s2 where "s2 = s1 @ [(dir @ ''/'' @ f1, FileNode ''# Title Page'')]"
  define s3 where "s3 = s2 @ [(dir @ ''/'' @ f2, FileNode ''# Notes'')]"
  define s4 where "s4 = s3 @ [(dir @ ''/'' @ f3, FileNode ''# Scene 1'')]"
  have nm_slash: "CHR ''/'' \<notin> set nm"
    unfolding nm_def num by (rule version_name_no_slash)
  have f_slash: "CHR ''/'' \<notin> set f1" "CHR ''/'' \<notin> set f2" "CHR ''/'' \<notin> set f3"
    using nm_slash by (simp_all add: f1_def f2_def f3_def)
  have dir_eq: "dir = p @ ''/'' @ nm" by (simp add: dir nm_def)
  then have dir_ne: "dir \<noteq> []" by simp
  have base: "basename dir = nm"
    unfolding dir_eq using nm_slash by (rule basename_join)
  have distinct_f: "f1 \<noteq> f2" "f1 \<noteq> f3" "f2 \<noteq> f3"
    by (simp_all add: f1_def f2_def f3_def)
  have longer: "dir @ ''/'' @ f \<noteq> dir" for f by simp
  have old: "dir @ ''/'' @ f \<notin> fst ` set st" if "CHR ''/'' \<notin> set f" for f
    using free that dir_ne by (rule fresh_child_not_in)
  have A: "createFolder store_vault (path (self (getFolder st p)) @ ''/'' @ nm) st
             = Inr (TFolder nm dir, s1)"
  proof -
    have "p @ CHR ''/'' # nm = dir" by (simp add: dir_eq)
    then show ?thesis
      using fresh_not_in [OF free] base
      by (simp add: store_vault_sel self_getFolder store_createFolder_new s1_def)
  qed
  have B: "create store_vault (path (TFolder nm dir) @ ''/'' @ nm @ ''_0_title_page.md'')
             ''# Title Page'' s1 = Inr s2"
  proof -
    have "dir @ ''/'' @ f1 \<notin> fst ` set s1"
      using old [OF f_slash(1)] longer [of f1] by (simp add: s1_def)
    then show ?thesis
      by (simp add: store_vault_sel store_create_new s2_def f1_def)
  qed
  have C: "create store_vault (path (TFolder nm dir) @ ''/'' @ nm @ ''_0_notes.md'')
             ''# Notes'' s2 = Inr s3"
  proof -
    have "dir @ ''/'' @ f2 \<notin> fst ` set s2"
      using old [OF f_slash(2)] longer [of f2] distinct_f by (simp add: s1_def s2_def)
    then show ?thesis
      by (simp add: store_vault_sel store_create_new s3_def f2_def)
  qed
  have D: "create store_vault (path (TFolder nm dir) @ ''/'' @ nm @ ''_scene0001.md'')
             ''# Scene 1'' s3 = Inr s4"
  proof -
    have "dir @ ''/'' @ f3 \<notin> fst ` set s3"
      using old [OF f_slash(3)] longer [of f3] distinct_f by (simp add: s1_def s2_def s3_def)
    then show ?thesis
      by (simp add: store_vault_sel store_create_new s4_def f3_def)
  qed
  have nm': "nm = ''v'' @ padStart 4 (CHR ''0'') (toString (length (filter
      (\<lambda>f. is_TFolder f \<and> isVersionFolder f) (children (getFolder st p))) + 1))"
    by (simp add: nm_def num k)
  have "createNewVersionFolder store_vault (getFolder st p) st
      = (s4, Inr (''Version '' @ toString (k + 1) @ '' Created''))"
    using createNewVersionFolder_steps [OF nm', of store_vault st _ "TFolder nm dir" s1 s2 s3 s4]
      A B C D k by blast
  then show ?thesis
    by (simp add: s4_def s3_def s2_def s1_def f1_def f2_def f3_def nm_def)
qed

section \<open>Claims about Create Version Folder\<close>

text \<open>
  C1: a project folder whose children are the version folders \<open>v0002\<close> and \<open>v0003\<close>
  (\<open>v0001\<close> was deleted) has two children that match the version pattern. The number
  computed is 3, which is not the next available one: the name \<open>v0003\<close> is taken, the
  creation of the folder raises, and neither a folder nor a seed file is created: the
  vault is unchanged.
\<close>

theorem createNewVersionFolder_gap_creates_nothing:
  "length (filter (\<lambda>f. is_TFolder f \<and> isVersionFolder f)
      (children (getFolder
         [(''proj'', FolderNode), (''proj/v0002'', FolderNode), (''proj/v0003'', FolderNode)]
         ''proj''))) = 2
   \<and> createNewVersionFolder store_vault
        (getFolder
           [(''proj'', FolderNode), (''proj/v0002'', FolderNode), (''proj/v0003'', FolderNode)]
           ''proj'')
        [(''proj'', FolderNode), (''proj/v0002'', FolderNode), (''proj/v0003'', FolderNode)]
      = ([(''proj'', FolderNode), (''proj/v0002'', FolderNode), (''proj/v0003'', FolderNode)],
         Inl (AlreadyExists ''proj/v0003''))"
  by code_simp

text \<open>
  What Create Version Folder does when the computed name is free: for a project folder
  at path \<open>p\<close> whose children include exactly \<open>k\<close> folders matching the version
  pattern, let \<open>num\<close> be \<open>k + 1\<close> in decimal, zero-padded to four digits. Provided
  nothing exists yet at the path \<open>p/v<num>\<close> or under it, Create Version Folder creates the folder named \<open>v<num>\<close> there and, in it, exactly the three
  files \<open>v<num>_0_title_page.md\<close>, \<open>v<num>_0_notes.md\<close> and \<open>v<num>_scene0001.md\<close>
  with their placeholder contents, changes nothing else, and shows the notice. The
  string \<open>num\<close> consists of digits, denotes \<open>k + 1\<close>, and has four digits as long as
  \<open>k + 1\<close> is below 10000, in which case the new folder matches the version pattern.
\<close>

lemma createNewVersionFolder_creates_seeds:
  fixes st :: store
  assumes k: "length (filter (\<lambda>f. is_TFolder f \<and> isVersionFolder f) (children (getFolder st p))) = k"
    and num: "num = padStart 4 (CHR ''0'') (toString (k + 1))"
    and dir: "dir = p @ ''/v'' @ num"
    and free: "fresh st dir"
    and st': "st' = st @ [(dir, FolderNode),
                  (dir @ ''/v'' @ num @ ''_0_title_page.md'', FileNode ''# Title Page''),
                  (dir @ ''/v'' @ num @ ''_0_notes.md'', FileNode ''# Notes''),
                  (dir @ ''/v'' @ num @ ''_scene0001.md'', FileNode ''# Scene 1'')]"
  shows "createNewVersionFolder store_vault (getFolder st p) st
           = (st', Inr (''Version '' @ toString (k + 1) @ '' Created''))
       \<and> handle (dir, FolderNode) = TFolder (''v'' @ num) dir
       \<and> children (getFolder st' dir)
           = [TFile (''v'' @ num @ ''_0_title_page.md'') (dir @ ''/v'' @ num @ ''_0_title_page.md''),
              TFile (''v'' @ num @ ''_0_notes.md'') (dir @ ''/v'' @ num @ ''_0_notes.md''),
              TFile (''v'' @ num @ ''_scene0001.md'') (dir @ ''/v'' @ num @ ''_scene0001.md'')]
       \<and> list_all isDigit num \<and> decimal num = k + 1
       \<and> length num = max 4 (length (toString (k + 1)))
       \<and> (k < 9999 \<longrightarrow> length num = 4 \<and> isVersionFolder (TFolder (''v'' @ num) dir))"
proof -
  define nm where "nm = ''v'' @ num"
  have nm_slash: "CHR ''/'' \<notin> set nm"
    unfolding nm_def num by (rule version_name_no_slash)
  have dir_eq: "dir = p @ ''/'' @ nm" by (simp add: dir nm_def)
  then have dir_ne: "dir \<noteq> []" by simp
  have base: "basename dir = nm"
    unfolding dir_eq using nm_slash by (rule basename_join)
  have own: "dirname dir \<noteq> dir"
    using dirname_join [OF nm_slash, of p] by (simp add: dir_eq nm_def)
  have run: "createNewVersionFolder store_vault (getFolder st p) st
           = (st', Inr (''Version '' @ toString (k + 1) @ '' Created''))"
    unfolding st' using k num dir free by (rule createNewVersionFolder_store)
  have hd: "handle (dir, FolderNode) = TFolder (''v'' @ num) dir"
    using base by (simp add: handle_def nm_def)
  have one: "listing [(dir @ ''/v'' @ num @ sfx, FileNode c)] dir
      = [TFile (''v'' @ num @ sfx) (dir @ ''/v'' @ num @ sfx)]" if "CHR ''/'' \<notin> set sfx" for sfx c
    using listing_file [of "nm @ sfx" dir c] nm_slash that dir_ne by (simp add: nm_def)
  have l0: "listing st dir = []"
    using free by (rule fresh_listing)
  have l1: "listing [(dir, FolderNode)] dir = []"
    using own by (simp add: listing_def)
  have l2: "listing [(dir @ ''/v'' @ num @ ''_0_title_page.md'', FileNode ''# Title Page'')] dir
      = [TFile (''v'' @ num @ ''_0_title_page.md'') (dir @ ''/v'' @ num @ ''_0_title_page.md'')]"
    by (rule one) simp
  have l3: "listing [(dir @ ''/v'' @ num @ ''_0_notes.md'', FileNode ''# Notes'')] dir
      = [TFile (''v'' @ num @ ''_0_notes.md'') (dir @ ''/v'' @ num @ ''_0_notes.md'')]"
    by (rule one) simp
  have l4: "listing [(dir @ ''/v'' @ num @ ''_scene0001.md'', FileNode ''# Scene 1'')] dir
      = [TFile (''v'' @ num @ ''_scene0001.md'') (dir @ ''/v'' @ num @ ''_scene0001.md'')]"
    by (rule one) simp
  have "st' = st @ [(dir, FolderNode)]
      @ [(dir @ ''/v'' @ num @ ''_0_title_page.md'', FileNode ''# Title Page'')]
      @ [(dir @ ''/v'' @ num @ ''_0_notes.md'', FileNode ''# Notes'')]
      @ [(dir @ ''/v'' @ num @ ''_scene0001.md'', FileNode ''# Scene 1'')]"
    unfolding st' by simp
  then have "listing st' dir = listing st dir @ listing [(dir, FolderNode)] dir
      @ listing [(dir @ ''/v'' @ num @ ''_0_title_page.md'', FileNode ''# Title Page'')] dir
      @ listing [(dir @ ''/v'' @ num @ ''_0_notes.md'', FileNode ''# Notes'')] dir
      @ listing [(dir @ ''/v'' @ num @ ''_scene0001.md'', FileNode ''# Scene 1'')] dir"
    by (simp only: listing_append)
  then have "listing st' dir = [] @ []
      @ [TFile (''v'' @ num @ ''_0_title_page.md'') (dir @ ''/v'' @ num @ ''_0_title_page.md'')]
      @ [TFile (''v'' @ num @ ''_0_notes.md'') (dir @ ''/v'' @ num @ ''_0_notes.md'')]
      @ [TFile (''v'' @ num @ ''_scene0001.md'') (dir @ ''/v'' @ num @ ''_scene0001.md'')]"
    by (simp only: l0 l1 l2 l3 l4)
  then have kids: "children (getFolder st' dir)
           = [TFile (''v'' @ num @ ''_0_title_page.md'') (dir @ ''/v'' @ num @ ''_0_title_page.md''),
              TFile (''v'' @ num @ ''_0_notes.md'') (dir @ ''/v'' @ num @ ''_0_notes.md''),
              TFile (''v'' @ num @ ''_scene0001.md'') (dir @ ''/v'' @ num @ ''_scene0001.md'')]"
    by (simp add: children_getFolder)
  have digits: "list_all isDigit num"
    unfolding num by (rule padStart_digits)
  have val: "decimal num = k + 1"
    unfolding num by (rule decimal_padStart)
  have len: "length num = max 4 (length (toString (k + 1)))"
    unfolding num by (rule length_padStart)
  have four: "length num = 4 \<and> isVersionFolder (TFolder (''v'' @ num) dir)" if "k < 9999"
  proof -
    have "length (toString (k + 1)) \<le> 4"
      using that by (intro length_toString) simp_all
    with len have "length num = 4" by simp
    then show ?thesis using digits four_digits_version [of num dir] by blast
  qed
  from run hd kids digits val len four show ?thesis by blast
qed

lemma createNewVersionFolder_creates_seeds_example:
  "createNewVersionFolder store_vault (getFolder [(''proj'', FolderNode)] ''proj'') [(''proj'', FolderNode)]
     = ([(''proj'', FolderNode), (''proj/v0001'', FolderNode),
         (''proj/v0001/v0001_0_title_page.md'', FileNode ''# Title Page''),
         (''proj/v0001/v0001_0_notes.md'', FileNode ''# Notes''),
         (''proj/v0001/v0001_scene0001.md'', FileNode ''# Scene 1'')],
        Inr ''Version 1 Created'')
   \<and> children (getFolder [(''proj'', FolderNode), (''proj/v0001'', FolderNode),
         (''proj/v0001/v0001_0_title_page.md'', FileNode ''# Title Page''),
         (''proj/v0001/v0001_0_notes.md'', FileNode ''# Notes''),
         (''proj/v0001/v0001_scene0001.md'', FileNode ''# Scene 1'')] ''proj/v0001'')
     = [TFile ''v0001_0_title_page.md'' ''proj/v0001/v0001_0_title_page.md'',
        TFile ''v0001_0_notes.md'' ''proj/v0001/v0001_0_notes.md'',
        TFile ''v0001_scene0001.md'' ''proj/v0001/v0001_scene0001.md'']"
proof -
  have k: "length (filter (\<lambda>f. is_TFolder f \<and> isVersionFolder f)
      (children (getFolder [(''proj'', FolderNode)] ''proj''))) = 0"
    by code_simp
  have num: "''0001'' = padStart 4 (CHR ''0'') (toString (0 + 1))"
    by code_simp
  have dir: "''proj/v0001'' = ''proj'' @ ''/v'' @ ''0001''"
    by simp
  have free: "fresh [(''proj'', FolderNode)] ''proj/v0001''"
    by code_simp
  have t: "toString (Suc 0) = ''1''"
    by code_simp
  from createNewVersionFolder_creates_seeds [OF k num dir free refl]
  show ?thesis by (simp add: t)
qed

section \<open>Claims about gaps in the numbering\<close>

text \<open>
  C7: in a project folder whose only version-pattern child is \<open>v0002\<close>, and in one whose
  version-pattern children are \<open>v0001\<close> and \<open>v0003\<close>, the name that Create Version
  Folder computes is the name of an existing child (\<open>v0002\<close>, \<open>v0003\<close>): the creation
  of the folder raises a collision and the vault stays as it was.
\<close>

theorem createNewVersionFolder_gap_collides:
  "children (getFolder [(''proj'', FolderNode), (''proj/v0002'', FolderNode)] ''proj'')
     = [TFolder ''v0002'' ''proj/v0002'']
   \<and> createNewVersionFolder store_vault
        (getFolder [(''proj'', FolderNode), (''proj/v0002'', FolderNode)] ''proj'')
        [(''proj'', FolderNode), (''proj/v0002'', FolderNode)]
      = ([(''proj'', FolderNode), (''proj/v0002'', FolderNode)], Inl (AlreadyExists ''proj/v0002''))
   \<and> children (getFolder
        [(''proj'', FolderNode), (''proj/v0001'', FolderNode), (''proj/v0003'', FolderNode)] ''proj'')
     = [TFolder ''v0001'' ''proj/v0001'', TFolder ''v0003'' ''proj/v0003'']
   \<and> createNewVersionFolder store_vault
        (getFolder
           [(''proj'', FolderNode), (''proj/v0001'', FolderNode), (''proj/v0003'', FolderNode)] ''proj'')
        [(''proj'', FolderNode), (''proj/v0001'', FolderNode), (''proj/v0003'', FolderNode)]
      = ([(''proj'', FolderNode), (''proj/v0001'', FolderNode), (''proj/v0003'', FolderNode)],
         Inl (AlreadyExists ''proj/v0003''))"
  by code_simp

section \<open>Claims about failures of Create Version Folder\<close>

lemma full_vault_keeps:
  "\<exists>added. fst (createNewVersionFolder (full_vault n) folder st) = st @ added"
  unfolding createNewVersionFolder_def Let_def full_vault_def store_createFolder_def store_create_def
  by (simp split: sum.splits prod.splits)

text \<open>
  C8: Create Version Folder issues its four creations one after the other, on any vault.
  The vault it leaves is the vault left by the last creation that succeeded: when the
  creation of the folder raises, the vault it was given; when the creation of the title
  page, of the notes or of the first scene raises, the vault as the creations before it
  left it. The operation then ends with that error, and nothing undoes what was created:
  on the vault held in memory, also when the device is full, the vault it leaves is the
  vault it was given followed by what was created.
\<close>

theorem createNewVersionFolder_not_atomic:
  fixes app :: "'s vault"
  assumes "nm = ''v'' @ padStart 4 (CHR ''0'')
      (toString (length (filter (\<lambda>f. is_TFolder f \<and> isVersionFolder f) (children folder)) + 1))"
  shows "(createFolder app (path (self folder) @ ''/'' @ nm) s = Inl e
            \<longrightarrow> createNewVersionFolder app folder s = (s, Inl e))
       \<and> (createFolder app (path (self folder) @ ''/'' @ nm) s = Inr (d, s1)
          \<and> create app (path d @ ''/'' @ nm @ ''_0_title_page.md'') ''# Title Page'' s1 = Inl e
            \<longrightarrow> createNewVersionFolder app folder s = (s1, Inl e))
       \<and> (createFolder app (path (self folder) @ ''/'' @ nm) s = Inr (d, s1)
          \<and> create app (path d @ ''/'' @ nm @ ''_0_title_page.md'') ''# Title Page'' s1 = Inr s2
          \<and> create app (path d @ ''/'' @ nm @ ''_0_notes.md'') ''# Notes'' s2 = Inl e
            \<longrightarrow> createNewVersionFolder app folder s = (s2, Inl e))
       \<and> (createFolder app (path (self folder) @ ''/'' @ nm) s = Inr (d, s1)
          \<and> create app (path d @ ''/'' @ nm @ ''_0_title_page.md'') ''# Title Page'' s1 = Inr s2
          \<and> create app (path d @ ''/'' @ nm @ ''_0_notes.md'') ''# Notes'' s2 = Inr s3
          \<and> create app (path d @ ''/'' @ nm @ ''_scene0001.md'') ''# Scene 1'' s3 = Inl e
            \<longrightarrow> createNewVersionFolder app folder s = (s3, Inl e))
       \<and> (\<exists>added. fst (createNewVersionFolder (full_vault n) folder' st) = st @ added)"
  using createNewVersionFolder_steps [OF assms, of app s e d s1 s2 s3]
    full_vault_keeps [of n folder' st] by blast

theorem createNewVersionFolder_not_atomic_witness:
  "createNewVersionFolder (full_vault 3) (getFolder [(''proj'', FolderNode)] ''proj'')
      [(''proj'', FolderNode)]
    = ([(''proj'', FolderNode), (''proj/v0001'', FolderNode),
        (''proj/v0001/v0001_0_title_page.md'', FileNode ''# Title Page'')],
       Inl (IOFailure ''proj/v0001/v0001_0_notes.md''))"
proof -
  have nm: "''v0001'' = ''v'' @ padStart 4 (CHR ''0'')
      (toString (length (filter (\<lambda>f. is_TFolder f \<and> isVersionFolder f)
         (children (getFolder [(''proj'', FolderNode)] ''proj''))) + 1))"
    by code_simp
  have A: "createFolder (full_vault 3)
      (path (self (getFolder [(''proj'', FolderNode)] ''proj'')) @ ''/'' @ ''v0001'')
      [(''proj'', FolderNode)]
    = Inr (TFolder ''v0001'' ''proj/v0001'', [(''proj'', FolderNode), (''proj/v0001'', FolderNode)])"
    by code_simp
  have B: "create (full_vault 3)
      (path (TFolder ''v0001'' ''proj/v0001'') @ ''/'' @ ''v0001'' @ ''_0_title_page.md'') ''# Title Page''
      [(''proj'', FolderNode), (''proj/v0001'', FolderNode)]
    = Inr [(''proj'', FolderNode), (''proj/v0001'', FolderNode),
        (''proj/v0001/v0001_0_title_page.md'', FileNode ''# Title Page'')]"
    by code_simp
  have C: "create (full_vault 3)
      (path (TFolder ''v0001'' ''proj/v0001'') @ ''/'' @ ''v0001'' @ ''_0_notes.md'') ''# Notes''
      [(''proj'', FolderNode), (''proj/v0001'', FolderNode),
        (''proj/v0001/v0001_0_title_page.md'', FileNode ''# Title Page'')]
    = Inl (IOFailure ''proj/v0001/v0001_0_notes.md'')"
    by code_simp
  from createNewVersionFolder_not_atomic [OF nm, THEN conjunct2, THEN conjunct2, THEN conjunct1,
      of "full_vault 3" "[(''proj'', FolderNode)]" "TFolder ''v0001'' ''proj/v0001''"
         "[(''proj'', FolderNode), (''proj/v0001'', FolderNode)]"
         "[(''proj'', FolderNode), (''proj/v0001'', FolderNode),
           (''proj/v0001/v0001_0_title_page.md'', FileNode ''# Title Page'')]"
         "IOFailure ''proj/v0001/v0001_0_notes.md''"]
    A B C
  show ?thesis by (simp only: simp_thms)
qed

section \<open>Claims about Create Scene File\<close>

lemma basename_no_slash: "CHR ''/'' \<notin> set (basename p)"
proof
  assume "CHR ''/'' \<in> set (basename p)"
  then have "CHR ''/'' \<in> set (takeWhile (\<lambda>c. c \<noteq> CHR ''/'') (rev p))"
    by (simp add: basename_def)
  then show False
    using set_takeWhileD by fastforce
qed

lemma version_name_shape:
  assumes "isVersionFolder f"
  shows "''v'' @ drop 1 (name f) = name f" and "name f \<noteq> []"
  using assms by (auto simp: isVersionFolder_def split: list.splits)

lemma basename_nonempty: "basename p \<noteq> [] \<Longrightarrow> p \<noteq> []"
  by (auto simp: basename_def)

lemma scene_name_no_slash:
  "CHR ''/'' \<notin> set (basename p @ ''_scene'' @ padStart w (CHR ''0'') (toString n) @ ''.md'')"
  using padStart_digits [of w n] isDigit_not_slash basename_no_slash [of p]
  by (auto simp: list_all_iff)

lemma createNewScene_steps:
  fixes app :: "'s vault"
  assumes "n = length (filter (\<lambda>f. is_TFile f \<and> includesText ''scene'' (name f)) (children folder)) + 1"
    and "file = path (self folder) @ ''/'' @ ''v'' @ drop 1 (name (self folder))
            @ ''_scene'' @ padStart 4 (CHR ''0'') (toString n) @ ''.md''"
  shows "(create app file (''# Scene '' @ toString n) s = Inl e
            \<longrightarrow> createNewScene app folder s = (s, Inl e))
       \<and> (create app file (''# Scene '' @ toString n) s = Inr s1
            \<longrightarrow> createNewScene app folder s = (s1, Inr (''Scene '' @ toString n @ '' Created'')))"
  unfolding createNewScene_def Let_def assms
  by simp

text \<open>
  C4: the version folder \<open>v0002\<close> whose only file is \<open>v0002_scene0002.md\<close> (the first
  scene was deleted) has one child with \<open>scene\<close> in its name. The number computed is 2,
  which is not the next available one: the name \<open>v0002_scene0002.md\<close> is taken, the
  creation raises and no file is created.
\<close>

theorem createNewScene_gap_creates_nothing:
  "length (filter (\<lambda>f. is_TFile f \<and> includesText ''scene'' (name f))
      (children (getFolder
         [(''proj'', FolderNode), (''proj/v0002'', FolderNode),
          (''proj/v0002/v0002_scene0002.md'', FileNode ''# Scene 2'')]
         ''proj/v0002''))) = 1
   \<and> createNewScene store_vault
        (getFolder
           [(''proj'', FolderNode), (''proj/v0002'', FolderNode),
            (''proj/v0002/v0002_scene0002.md'', FileNode ''# Scene 2'')]
           ''proj/v0002'')
        [(''proj'', FolderNode), (''proj/v0002'', FolderNode),
         (''proj/v0002/v0002_scene0002.md'', FileNode ''# Scene 2'')]
      = ([(''proj'', FolderNode), (''proj/v0002'', FolderNode),
          (''proj/v0002/v0002_scene0002.md'', FileNode ''# Scene 2'')],
         Inl (AlreadyExists ''proj/v0002/v0002_scene0002.md''))"
  by code_simp

text \<open>
  What Create Scene File does when the computed name is free: for a version folder at path \<open>p\<close> whose children include exactly \<open>m\<close>
  files with \<open>scene\<close> in their name, let \<open>num\<close> be \<open>m + 1\<close> in decimal, zero-padded to
  four digits. Provided no entry exists yet at the path of the file named
  \<open><folder-name>_scene<num>.md\<close> in that folder, Create Scene File creates that file
  with the content \<open># Scene \<close> followed by \<open>m + 1\<close>, as the last child of the folder,
  changes nothing else, and shows the notice.
\<close>

lemma createNewScene_creates_scene:
  fixes st :: store
  assumes vf: "isVersionFolder (self (getFolder st p))"
    and m: "length (filter (\<lambda>f. is_TFile f \<and> includesText ''scene'' (name f))
              (children (getFolder st p))) = m"
    and num: "num = padStart 4 (CHR ''0'') (toString (m + 1))"
    and fname: "fname = name (self (getFolder st p)) @ ''_scene'' @ num @ ''.md''"
    and free: "p @ ''/'' @ fname \<notin> fst ` set st"
    and st': "st' = st @ [(p @ ''/'' @ fname, FileNode (''# Scene '' @ toString (m + 1)))]"
  shows "createNewScene store_vault (getFolder st p) st
           = (st', Inr (''Scene '' @ toString (m + 1) @ '' Created''))
       \<and> children (getFolder st' p) = children (getFolder st p) @ [TFile fname (p @ ''/'' @ fname)]
       \<and> list_all isDigit num \<and> decimal num = m + 1
       \<and> length num = max 4 (length (toString (m + 1)))"
proof -
  have nm: "name (self (getFolder st p)) = basename p"
    by (simp add: self_getFolder)
  have shape: "''v'' @ drop 1 (basename p) = basename p" "basename p \<noteq> []"
    using version_name_shape [OF vf] by (simp_all add: nm)
  then have p_ne: "p \<noteq> []"
    using basename_nonempty by blast
  have slash: "CHR ''/'' \<notin> set fname"
    unfolding fname nm num by (rule scene_name_no_slash)
  have target: "p @ ''/'' @ fname
      = path (self (getFolder st p)) @ ''/'' @ ''v'' @ drop 1 (name (self (getFolder st p)))
            @ ''_scene'' @ padStart 4 (CHR ''0'') (toString (m + 1)) @ ''.md''"
    using shape(1) by (simp add: self_getFolder fname num)
  have n: "m + 1 = length (filter (\<lambda>f. is_TFile f \<and> includesText ''scene'' (name f))
      (children (getFolder st p))) + 1"
    by (simp add: m)
  have "create store_vault (p @ ''/'' @ fname) (''# Scene '' @ toString (m + 1)) st = Inr st'"
    using free by (simp add: store_vault_sel store_create_new st')
  with createNewScene_steps [OF n target, of store_vault st _ st']
  have run: "createNewScene store_vault (getFolder st p) st
           = (st', Inr (''Scene '' @ toString (m + 1) @ '' Created''))"
    by blast
  have "listing st' p = listing st p
      @ listing [(p @ ''/'' @ fname, FileNode (''# Scene '' @ toString (m + 1)))] p"
    unfolding st' by (rule listing_append)
  also have "listing [(p @ ''/'' @ fname, FileNode (''# Scene '' @ toString (m + 1)))] p
      = [TFile fname (p @ ''/'' @ fname)]"
    using slash p_ne by (rule listing_file)
  finally have kids: "children (getFolder st' p)
      = children (getFolder st p) @ [TFile fname (p @ ''/'' @ fname)]"
    by (simp only: children_getFolder)
  have digits: "list_all isDigit num"
    unfolding num by (rule padStart_digits)
  have val: "decimal num = m + 1"
    unfolding num by (rule decimal_padStart)
  have len: "length num = max 4 (length (toString (m + 1)))"
    unfolding num by (rule length_padStart)
  from run kids digits val len show ?thesis by blast
qed

lemma createNewScene_creates_scene_example:
  "createNewScene store_vault
      (getFolder [(''proj'', FolderNode), (''proj/v0002'', FolderNode),
         (''proj/v0002/v0002_0_notes.md'', FileNode ''# Notes''),
         (''proj/v0002/v0002_scene0001.md'', FileNode ''# Scene 1''),
         (''proj/v0002/v0002_scene0002.md'', FileNode ''# Scene 2'')] ''proj/v0002'')
      [(''proj'', FolderNode), (''proj/v0002'', FolderNode),
       (''proj/v0002/v0002_0_notes.md'', FileNode ''# Notes''),
       (''proj/v0002/v0002_scene0001.md'', FileNode ''# Scene 1''),
       (''proj/v0002/v0002_scene0002.md'', FileNode ''# Scene 2'')]
    = ([(''proj'', FolderNode), (''proj/v0002'', FolderNode),
        (''proj/v0002/v0002_0_notes.md'', FileNode ''# Notes''),
        (''proj/v0002/v0002_scene0001.md'', FileNode ''# Scene 1''),
        (''proj/v0002/v0002_scene0002.md'', FileNode ''# Scene 2''),
        (''proj/v0002/v0002_scene0003.md'', FileNode ''# Scene 3'')],
       Inr ''Scene 3 Created'')"
proof -
  let ?st = "[(''proj'', FolderNode), (''proj/v0002'', FolderNode),
       (''proj/v0002/v0002_0_notes.md'', FileNode ''# Notes''),
       (''proj/v0002/v0002_scene0001.md'', FileNode ''# Scene 1''),
       (''proj/v0002/v0002_scene0002.md'', FileNode ''# Scene 2'')]"
  have vf: "isVersionFolder (self (getFolder ?st ''proj/v0002''))"
    by code_simp
  have m: "length (filter (\<lambda>f. is_TFile f \<and> includesText ''scene'' (name f))
              (children (getFolder ?st ''proj/v0002''))) = 2"
    by code_simp
  have num: "''0003'' = padStart 4 (CHR ''0'') (toString (2 + 1))"
    by code_simp
  have fname: "''v0002_scene0003.md'' = name (self (getFolder ?st ''proj/v0002'')) @ ''_scene'' @ ''0003'' @ ''.md''"
    by code_simp
  have free: "''proj/v0002'' @ ''/'' @ ''v0002_scene0003.md'' \<notin> fst ` set ?st"
    by code_simp
  have t: "toString 3 = ''3''"
    by code_simp
  from createNewScene_creates_scene [OF vf m num fname free refl, THEN conjunct1]
  show ?thesis by (simp add: t)
qed

section \<open>Properties of Duplicate Version Folder\<close>

lemma getSubstitution_plain:
  "CHR ''$'' \<notin> set rep \<Longrightarrow> getSubstitution matched pre post rep = rep"
  by (induction matched pre post rep rule: getSubstitution.induct) auto

lemma set_replaceFrom:
  "CHR ''$'' \<notin> set rep \<Longrightarrow> set (replaceFrom pre s pat rep) \<subseteq> set pre \<union> set s \<union> set rep"
proof (induction s arbitrary: pre)
  case Nil
  then show ?case by (simp add: getSubstitution_plain)
next
  case (Cons c cs)
  have "set (drop (length pat) (c # cs)) \<subseteq> set (c # cs)"
    by (rule set_drop_subset)
  moreover have "set (replaceFrom (pre @ [c]) cs pat rep) \<subseteq> set (pre @ [c]) \<union> set cs \<union> set rep"
    using Cons by blast
  ultimately show ?case
    using Cons.prems by (auto simp: getSubstitution_plain)
qed

lemma set_replace:
  "CHR ''$'' \<notin> set rep \<Longrightarrow> set (replace s pat rep) \<subseteq> set s \<union> set rep"
  using set_replaceFrom [of rep "[]" s pat] by (simp add: replace_def)

lemma replace_prefix:
  assumes "CHR ''$'' \<notin> set rep"
  shows "replace (pat @ rest) pat rep = rep @ rest"
proof (cases "pat @ rest")
  case Nil
  then show ?thesis
    using assms by (simp add: replace_def getSubstitution_plain)
next
  case (Cons c cs)
  have t: "take (length pat) (c # cs) = pat" "drop (length pat) (c # cs) = rest"
    using Cons [symmetric] by simp_all
  show ?thesis
    unfolding Cons replace_def
    by (simp only: replaceFrom.simps t append_Nil getSubstitution_plain [OF assms]) simp
qed

lemma isDigit_not_dollar: "isDigit c \<Longrightarrow> c \<noteq> CHR ''$''"
  by (auto simp: isDigit_def)

lemma version_name_no_dollar: "CHR ''$'' \<notin> set (''v'' @ padStart w (CHR ''0'') (toString n))"
  using padStart_digits [of w n] isDigit_not_dollar
  by (auto simp: list_all_iff)

lemma handle_file: "snd e \<noteq> FolderNode \<Longrightarrow> handle e = TFile (basename (fst e)) (fst e)"
  by (cases "snd e") (simp_all add: handle_def)

lemma handle_folder: "snd e = FolderNode \<Longrightarrow> handle e = TFolder (basename (fst e)) (fst e)"
  by (simp add: handle_def)

lemma store_read_file:
  "map_of s q = Some n \<Longrightarrow> n \<noteq> FolderNode \<Longrightarrow>
     \<exists>c. n = FileNode c \<and> store_read (TFile b q) s = Inr c"
  by (cases n) (simp_all add: store_read_def)

lemma copyFiles_store:
  fixes s :: store
  assumes np: "\<And>e. np e = path nvf @ ''/'' @ replace (basename (fst e)) (name (self folder)) (name nvf)"
    and "\<forall>e \<in> set es. map_of s (fst e) = Some (snd e)"
    and "distinct (map np (filter (\<lambda>e. snd e \<noteq> FolderNode) es))"
    and "\<forall>e \<in> set (filter (\<lambda>e. snd e \<noteq> FolderNode) es). np e \<notin> fst ` set s"
  shows "copyFiles store_vault folder nvf (map handle es) s
     = (s @ map (\<lambda>e. (np e, snd e)) (filter (\<lambda>e. snd e \<noteq> FolderNode) es), Inr ())"
  using assms(2-4)
proof (induction es arbitrary: s)
  case Nil
  then show ?case by simp
next
  case (Cons e es)
  show ?case
  proof (cases "snd e = FolderNode")
    case True
    then have "handle e = TFolder (basename (fst e)) (fst e)" by (rule handle_folder)
    moreover have "copyFiles store_vault folder nvf (map handle es) s
        = (s @ map (\<lambda>e. (np e, snd e)) (filter (\<lambda>e. snd e \<noteq> FolderNode) es), Inr ())"
      using Cons.prems True by (intro Cons.IH) simp_all
    ultimately show ?thesis using True by simp
  next
    case False
    then have h: "handle e = TFile (basename (fst e)) (fst e)" by (rule handle_file)
    have "map_of s (fst e) = Some (snd e)" using Cons.prems(1) by simp
    then obtain c where c: "snd e = FileNode c" "store_read (TFile (basename (fst e)) (fst e)) s = Inr c"
      using store_read_file False by blast
    have new: "np e \<notin> fst ` set s" using Cons.prems(3) False by simp
    let ?s1 = "s @ [(np e, FileNode c)]"
    have cr: "store_create (np e) c s = Inr ?s1"
      using new by (rule store_create_new)
    have 1: "\<forall>e' \<in> set es. map_of ?s1 (fst e') = Some (snd e')"
      using Cons.prems(1) by (simp add: map_add_def)
    have 2: "distinct (map np (filter (\<lambda>e. snd e \<noteq> FolderNode) es))"
      using Cons.prems(2) False by simp
    have other: "np e \<notin> np ` set (filter (\<lambda>e. snd e \<noteq> FolderNode) es)"
      using Cons.prems(2) False by simp
    have 3: "\<forall>e' \<in> set (filter (\<lambda>e. snd e \<noteq> FolderNode) es). np e' \<notin> fst ` set ?s1"
    proof
      fix e'
      assume e': "e' \<in> set (filter (\<lambda>e. snd e \<noteq> FolderNode) es)"
      then have "np e' \<notin> fst ` set s" using Cons.prems(3) by simp
      moreover have "np e' \<noteq> np e"
      proof
        assume "np e' = np e"
        then have "np e \<in> np ` set (filter (\<lambda>e. snd e \<noteq> FolderNode) es)"
          using e' by (metis imageI)
        with other show False by simp
      qed
      ultimately show "np e' \<notin> fst ` set ?s1" by simp
    qed
    have "copyFiles store_vault folder nvf (map handle es) ?s1
        = (?s1 @ map (\<lambda>e. (np e, snd e)) (filter (\<lambda>e. snd e \<noteq> FolderNode) es), Inr ())"
      using 1 2 3 by (rule Cons.IH)
    moreover have "copyFiles store_vault folder nvf (map handle (e # es)) s
        = copyFiles store_vault folder nvf (map handle es) ?s1"
      using h c cr np [of e] by (simp add: store_vault_sel Let_def)
    ultimately show ?thesis
      using False c by simp
  qed
qed

lemma dirname_root: "dirname ''/'' = ''/''"
  by (simp add: dirname_def)

lemma dirname_nonempty: "dirname p \<noteq> []"
  by (simp add: dirname_def Let_def)

lemma is_TFile_handle: "is_TFile (handle e) = (snd e \<noteq> FolderNode)"
  by (cases "snd e") (simp_all add: handle_def)

lemma filter_files_listing:
  "filter is_TFile (map handle es) = map handle (filter (\<lambda>e. snd e \<noteq> FolderNode) es)"
  by (induction es) (simp_all add: is_TFile_handle)

lemma listing_copies:
  assumes "\<forall>e \<in> set xs. snd e \<noteq> FolderNode \<and> CHR ''/'' \<notin> set (r e)" and "d \<noteq> []"
  shows "listing (map (\<lambda>e. (d @ ''/'' @ r e, snd e)) xs) d
           = map (\<lambda>e. TFile (r e) (d @ ''/'' @ r e)) xs"
  using assms(1)
proof (induction xs)
  case Nil
  then show ?case by (simp add: listing_def)
next
  case (Cons e xs)
  have s: "CHR ''/'' \<notin> set (r e)" and f: "snd e \<noteq> FolderNode"
    using Cons.prems by simp_all
  have "dirname (d @ ''/'' @ r e) = d" "basename (d @ ''/'' @ r e) = r e"
    using dirname_join [OF s, of d] basename_join [OF s, of d] assms(2) by simp_all
  then have "listing [(d @ ''/'' @ r e, snd e)] d = [TFile (r e) (d @ ''/'' @ r e)]"
    using f by (simp add: listing_def handle_file)
  moreover have "listing (map (\<lambda>e. (d @ ''/'' @ r e, snd e)) xs) d
           = map (\<lambda>e. TFile (r e) (d @ ''/'' @ r e)) xs"
    using Cons by simp
  moreover have "map (\<lambda>e. (d @ ''/'' @ r e, snd e)) (e # xs)
      = [(d @ ''/'' @ r e, snd e)] @ map (\<lambda>e. (d @ ''/'' @ r e, snd e)) xs"
    by simp
  ultimately show ?case
    by (simp only: listing_append) simp
qed

lemma distinct_under:
  "distinct (map r xs) \<Longrightarrow> distinct (map (\<lambda>e. d @ ''/'' @ r e) xs)"
proof -
  assume "distinct (map r xs)"
  moreover have "inj (\<lambda>x :: string. d @ ''/'' @ x)"
    by (rule injI) simp
  ultimately have "distinct (map (\<lambda>x. d @ ''/'' @ x) (map r xs))"
    by (simp add: distinct_map inj_on_def)
  then show ?thesis by (simp add: comp_def)
qed

lemma duplicateVersionFolder_store:
  fixes st :: store
  assumes uniq: "distinct (map fst st)"
    and inner: "dirname p \<noteq> ''/''"
    and n: "length (filter (\<lambda>f. is_TFolder f \<and> startsWith ''v'' (name f))
              (children (getFolder st (dirname p)))) = n"
    and new: "new = ''v'' @ padStart 4 (CHR ''0'') (toString (n + 1))"
    and dir: "dir = dirname p @ ''/'' @ new"
    and free: "fresh st dir"
    and files: "files = filter (\<lambda>e. snd e \<noteq> FolderNode) (filter (\<lambda>e. dirname (fst e) = p) st)"
    and names: "distinct (map (\<lambda>e. replace (basename (fst e)) (basename p) new) files)"
  shows "duplicateVersionFolder store_vault (getFolder st p) st
           = (st @ (dir, FolderNode)
                 # map (\<lambda>e. (dir @ ''/'' @ replace (basename (fst e)) (basename p) new, snd e)) files,
              Inr (''Version '' @ toString (n + 1) @ '' Duplicated''))"
proof -
  define r where "r = (\<lambda>e :: string \<times> node. replace (basename (fst e)) (basename p) new)"
  define np where "np = (\<lambda>e :: string \<times> node. dir @ ''/'' @ r e)"
  define s1 where "s1 = st @ [(dir, FolderNode)]"
  define es where "es = filter (\<lambda>e. dirname (fst e) = p) st"
  have p_root: "p \<noteq> ''/''"
    using inner dirname_root by auto
  have par: "parent (getFolder st p) = Some (getFolder st (dirname p))"
    using p_root by (simp add: parent_getFolder)
  have new_slash: "CHR ''/'' \<notin> set new" and new_dollar: "CHR ''$'' \<notin> set new"
    unfolding new by (rule version_name_no_slash, rule version_name_no_dollar)
  have dir_ne: "dir \<noteq> []" by (simp add: dir)
  have base: "basename dir = new"
    unfolding dir using new_slash by (rule basename_join)
  have r_slash: "CHR ''/'' \<notin> set (r e)" for e
    using set_replace [OF new_dollar, of "basename (fst e)" "basename p"]
      basename_no_slash [of "fst e"] new_slash
    by (auto simp: r_def)
  have A: "createFolder store_vault
      (path (self (getFolder st (dirname p))) @ ''/v'' @ padStart 4 (CHR ''0'') (toString (n + 1))) st
      = Inr (TFolder new dir, s1)"
  proof -
    have "dirname p @ ''/v'' @ padStart 4 (CHR ''0'') (toString (n + 1)) = dir"
      by (simp add: dir new)
    then show ?thesis
      using fresh_not_in [OF free] base
      by (simp add: store_vault_sel self_getFolder store_createFolder_new s1_def)
  qed
  have np_eq: "np e = path (TFolder new dir) @ ''/''
      @ replace (basename (fst e)) (name (self (getFolder st p))) (name (TFolder new dir))" for e
    by (simp add: np_def r_def self_getFolder)
  have 1: "\<forall>e \<in> set es. map_of s1 (fst e) = Some (snd e)"
  proof
    fix e
    assume "e \<in> set es"
    then have "(fst e, snd e) \<in> set st" by (simp add: es_def)
    with uniq have "map_of st (fst e) = Some (snd e)" by (rule map_of_is_SomeI)
    then show "map_of s1 (fst e) = Some (snd e)" by (simp add: s1_def map_add_def)
  qed
  have fs: "filter (\<lambda>e. snd e \<noteq> FolderNode) es = files"
    by (simp add: files es_def)
  have 2: "distinct (map np (filter (\<lambda>e. snd e \<noteq> FolderNode) es))"
    unfolding fs np_def using names [folded r_def] by (rule distinct_under)
  have 3: "\<forall>e \<in> set (filter (\<lambda>e. snd e \<noteq> FolderNode) es). np e \<notin> fst ` set s1"
  proof
    fix e
    assume "e \<in> set (filter (\<lambda>e. snd e \<noteq> FolderNode) es)"
    have "dir @ ''/'' @ r e \<notin> fst ` set st"
      using free r_slash dir_ne by (rule fresh_child_not_in)
    then show "np e \<notin> fst ` set s1"
      by (simp add: np_def s1_def)
  qed
  have B: "copyFiles store_vault (getFolder st p) (TFolder new dir) (children (getFolder st p)) s1
      = (s1 @ map (\<lambda>e. (np e, snd e)) files, Inr ())"
  proof -
    have "children (getFolder st p) = map handle es"
      by (simp add: children_getFolder listing_def es_def)
    then show ?thesis
      using copyFiles_store [of np "TFolder new dir" "getFolder st p" es s1, OF np_eq 1 2 3]
      by (simp only: fs)
  qed
  have "duplicateVersionFolder store_vault (getFolder st p) st
      = (s1 @ map (\<lambda>e. (np e, snd e)) files, Inr (''Version '' @ toString (n + 1) @ '' Duplicated''))"
    unfolding duplicateVersionFolder_def Let_def par option.case children_getFolder [symmetric] n A
    by (simp only: sum.case prod.case B)
  then show ?thesis
    by (simp add: s1_def np_def r_def)
qed

lemma store_read_at:
  "map_of s q = Some n \<Longrightarrow>
     store_read (TFile b q) s = (case n of FileNode c \<Rightarrow> Inr c | FolderNode \<Rightarrow> Inl (IOFailure q))"
  by (simp add: store_read_def split: node.splits)

section \<open>Claims about Duplicate Version Folder\<close>

text \<open>
  C5, as stated, fails where the numbering has a gap. The version folder \<open>v0002\<close>, whose
  only child is a file, is the only folder of its project (\<open>v0001\<close> was deleted): the
  name computed for the copy is \<open>v0002\<close>, the creation of the folder raises, and no new
  folder and no copy of the file exist afterwards.
\<close>

theorem duplicateVersionFolder_gap_copies_nothing:
  "list_all is_TFile (children (getFolder
       [(''proj'', FolderNode), (''proj/v0002'', FolderNode),
        (''proj/v0002/v0002_scene0001.md'', FileNode ''# Scene 1'')] ''proj/v0002''))
   \<and> duplicateVersionFolder store_vault
        (getFolder
           [(''proj'', FolderNode), (''proj/v0002'', FolderNode),
            (''proj/v0002/v0002_scene0001.md'', FileNode ''# Scene 1'')] ''proj/v0002'')
        [(''proj'', FolderNode), (''proj/v0002'', FolderNode),
         (''proj/v0002/v0002_scene0001.md'', FileNode ''# Scene 1'')]
      = ([(''proj'', FolderNode), (''proj/v0002'', FolderNode),
          (''proj/v0002/v0002_scene0001.md'', FileNode ''# Scene 1'')],
         Inl (AlreadyExists ''proj/v0002''))"
  by code_simp

text \<open>
  C5, amended: take a version folder at path \<open>p\<close> inside a project folder, in a vault
  whose paths are unique, and let \<open>new\<close> be \<open>v\<close> followed by the zero-padded 4-digit
  number one above the count of its sibling folders whose name starts with \<open>v\<close>.
  Provided nothing exists yet at the sibling path named \<open>new\<close> or under it, and the new
  names of the source's files differ from one another, Duplicate Version Folder creates
  the folder \<open>new\<close> and in it one file for each file of the source, in the same order
  and number: each has the content of its source file, read through the vault, and
  the name of its source file with the first occurrence of the source folder's name
  replaced by \<open>new\<close>. Nothing else in the vault changes.
\<close>

theorem duplicateVersionFolder_copies:
  fixes st :: store
  assumes uniq: "distinct (map fst st)"
    and inner: "dirname p \<noteq> ''/''"
    and n: "length (filter (\<lambda>f. is_TFolder f \<and> startsWith ''v'' (name f))
              (children (getFolder st (dirname p)))) = n"
    and new: "new = ''v'' @ padStart 4 (CHR ''0'') (toString (n + 1))"
    and dir: "dir = dirname p @ ''/'' @ new"
    and free: "fresh st dir"
    and files: "files = filter (\<lambda>e. snd e \<noteq> FolderNode) (filter (\<lambda>e. dirname (fst e) = p) st)"
    and names: "distinct (map (\<lambda>e. replace (basename (fst e)) (basename p) new) files)"
    and st': "st' = st @ (dir, FolderNode)
                 # map (\<lambda>e. (dir @ ''/'' @ replace (basename (fst e)) (basename p) new, snd e)) files"
  shows "duplicateVersionFolder store_vault (getFolder st p) st
           = (st', Inr (''Version '' @ toString (n + 1) @ '' Duplicated''))
       \<and> handle (dir, FolderNode) = TFolder new dir
       \<and> filter is_TFile (children (getFolder st p)) = map handle files
       \<and> children (getFolder st' dir)
           = map (\<lambda>e. TFile (replace (basename (fst e)) (basename p) new)
                         (dir @ ''/'' @ replace (basename (fst e)) (basename p) new)) files
       \<and> length (children (getFolder st' dir)) = length (filter is_TFile (children (getFolder st p)))
       \<and> map (\<lambda>f. store_read f st') (children (getFolder st' dir))
           = map (\<lambda>f. store_read f st) (filter is_TFile (children (getFolder st p)))
       \<and> list_all (\<lambda>f. \<exists>c. store_read f st = Inr c) (filter is_TFile (children (getFolder st p)))"
proof -
  define r where "r = (\<lambda>e :: string \<times> node. replace (basename (fst e)) (basename p) new)"
  define copies where "copies = map (\<lambda>e. (dir @ ''/'' @ r e, snd e)) files"
  have st'_eq: "st' = st @ [(dir, FolderNode)] @ copies"
    by (simp add: st' copies_def r_def)
  have new_slash: "CHR ''/'' \<notin> set new" and new_dollar: "CHR ''$'' \<notin> set new"
    unfolding new by (rule version_name_no_slash, rule version_name_no_dollar)
  have dir_ne: "dir \<noteq> []" by (simp add: dir)
  have base: "basename dir = new"
    unfolding dir using new_slash by (rule basename_join)
  have own: "dirname dir \<noteq> dir"
    using dirname_join [OF new_slash, of "dirname p"] dirname_nonempty [of p] by (simp add: dir)
  have r_slash: "CHR ''/'' \<notin> set (r e)" for e
    using set_replace [OF new_dollar, of "basename (fst e)" "basename p"]
      basename_no_slash [of "fst e"] new_slash
    by (auto simp: r_def)
  have isfile: "\<forall>e \<in> set files. snd e \<noteq> FolderNode \<and> CHR ''/'' \<notin> set (r e)"
    using r_slash by (simp add: files)
  have run: "duplicateVersionFolder store_vault (getFolder st p) st
           = (st', Inr (''Version '' @ toString (n + 1) @ '' Duplicated''))"
    unfolding st' using uniq inner n new dir free files names by (rule duplicateVersionFolder_store)
  have hd: "handle (dir, FolderNode) = TFolder new dir"
    using base by (simp add: handle_def)
  have src: "filter is_TFile (children (getFolder st p)) = map handle files"
    by (simp add: children_getFolder listing_def filter_files_listing files)
  have "listing st' dir = listing st dir @ listing [(dir, FolderNode)] dir @ listing copies dir"
    unfolding st'_eq by (simp only: listing_append)
  moreover have "listing st dir = []"
    using free by (rule fresh_listing)
  moreover have "listing [(dir, FolderNode)] dir = []"
    using own by (simp add: listing_def)
  moreover have "listing copies dir = map (\<lambda>e. TFile (r e) (dir @ ''/'' @ r e)) files"
    unfolding copies_def using isfile dir_ne by (rule listing_copies)
  ultimately have kids: "children (getFolder st' dir)
      = map (\<lambda>e. TFile (r e) (dir @ ''/'' @ r e)) files"
    by (simp add: children_getFolder)
  have len: "length (children (getFolder st' dir))
      = length (filter is_TFile (children (getFolder st p)))"
    by (simp add: kids src)
  have old_read: "store_read (handle e) st
      = (case snd e of FileNode c \<Rightarrow> Inr c | FolderNode \<Rightarrow> Inl (IOFailure (fst e)))"
    if "e \<in> set files" for e
  proof -
    from that have "(fst e, snd e) \<in> set st" "snd e \<noteq> FolderNode" by (simp_all add: files)
    with uniq have "map_of st (fst e) = Some (snd e)" by simp
    then show ?thesis
      using \<open>snd e \<noteq> FolderNode\<close> by (simp add: handle_file store_read_at)
  qed
  have dc: "distinct (map fst copies)"
  proof -
    have "map fst copies = map (\<lambda>e. dir @ ''/'' @ r e) files"
      by (simp add: copies_def comp_def)
    then show ?thesis
      using distinct_under [OF names [folded r_def], of dir] by simp
  qed
  have new_read: "store_read (TFile (r e) (dir @ ''/'' @ r e)) st'
      = (case snd e of FileNode c \<Rightarrow> Inr c | FolderNode \<Rightarrow> Inl (IOFailure (fst e)))"
    if "e \<in> set files" for e
  proof -
    have f: "snd e \<noteq> FolderNode" using that by (simp add: files)
    have "dir @ ''/'' @ r e \<notin> fst ` set st"
      using free r_slash dir_ne by (rule fresh_child_not_in)
    then have a: "map_of st (dir @ ''/'' @ r e) = None"
      by (simp add: map_of_eq_None_iff)
    have "(dir @ ''/'' @ r e, snd e) \<in> set copies"
      using that by (auto simp: copies_def)
    with dc have b: "map_of copies (dir @ ''/'' @ r e) = Some (snd e)"
      by (rule map_of_is_SomeI)
    have c: "dir @ ''/'' @ r e \<noteq> dir" by simp
    have "map_of st' (dir @ ''/'' @ r e) = Some (snd e)"
      unfolding st'_eq using a b c by (simp add: map_add_def)
    then show ?thesis
      using f by (cases "snd e") (simp_all add: store_read_at)
  qed
  have same: "map (\<lambda>f. store_read f st') (children (getFolder st' dir))
      = map (\<lambda>f. store_read f st) (filter is_TFile (children (getFolder st p)))"
    unfolding kids src using old_read new_read by (simp add: comp_def)
  have readable: "list_all (\<lambda>f. \<exists>c. store_read f st = Inr c) (filter is_TFile (children (getFolder st p)))"
    unfolding src list_all_iff
  proof
    fix f
    assume "f \<in> set (map handle files)"
    then obtain e where e: "e \<in> set files" "f = handle e" by auto
    then have "snd e \<noteq> FolderNode" by (simp add: files)
    then obtain c where "snd e = FileNode c" by (cases "snd e") simp_all
    then show "\<exists>c. store_read f st = Inr c"
      using old_read [OF e(1)] e(2) by simp
  qed
  from run hd src kids [unfolded r_def] len same readable show ?thesis by blast
qed

theorem duplicateVersionFolder_copies_witness:
  "duplicateVersionFolder store_vault
      (getFolder [(''proj'', FolderNode), (''proj/v0001'', FolderNode),
         (''proj/v0001/v0001_0_notes.md'', FileNode ''# Notes, draft one''),
         (''proj/v0001/v0001_scene0001.md'', FileNode ''# Scene 1'')] ''proj/v0001'')
      [(''proj'', FolderNode), (''proj/v0001'', FolderNode),
       (''proj/v0001/v0001_0_notes.md'', FileNode ''# Notes, draft one''),
       (''proj/v0001/v0001_scene0001.md'', FileNode ''# Scene 1'')]
    = ([(''proj'', FolderNode), (''proj/v0001'', FolderNode),
        (''proj/v0001/v0001_0_notes.md'', FileNode ''# Notes, draft one''),
        (''proj/v0001/v0001_scene0001.md'', FileNode ''# Scene 1''),
        (''proj/v0002'', FolderNode),
        (''proj/v0002/v0002_0_notes.md'', FileNode ''# Notes, draft one''),
        (''proj/v0002/v0002_scene0001.md'', FileNode ''# Scene 1'')],
       Inr ''Version 2 Duplicated'')"
proof -
  let ?st = "[(''proj'', FolderNode), (''proj/v0001'', FolderNode),
       (''proj/v0001/v0001_0_notes.md'', FileNode ''# Notes, draft one''),
       (''proj/v0001/v0001_scene0001.md'', FileNode ''# Scene 1'')]"
  let ?files = "[(''proj/v0001/v0001_0_notes.md'', FileNode ''# Notes, draft one''),
       (''proj/v0001/v0001_scene0001.md'', FileNode ''# Scene 1'')]"
  have uniq: "distinct (map fst ?st)"
    by code_simp
  have inner: "dirname ''proj/v0001'' \<noteq> ''/''"
    by code_simp
  have n: "length (filter (\<lambda>f. is_TFolder f \<and> startsWith ''v'' (name f))
              (children (getFolder ?st (dirname ''proj/v0001'')))) = 1"
    by code_simp
  have new: "''v0002'' = ''v'' @ padStart 4 (CHR ''0'') (toString (1 + 1))"
    by code_simp
  have dir: "''proj/v0002'' = dirname ''proj/v0001'' @ ''/'' @ ''v0002''"
    by code_simp
  have free: "fresh ?st ''proj/v0002''"
    by code_simp
  have files: "?files = filter (\<lambda>e. snd e \<noteq> FolderNode)
      (filter (\<lambda>e. dirname (fst e) = ''proj/v0001'') ?st)"
    by code_simp
  have names: "distinct (map (\<lambda>e. replace (basename (fst e)) (basename ''proj/v0001'') ''v0002'') ?files)"
    by code_simp
  have copies: "map (\<lambda>e. (''proj/v0002'' @ ''/'' @ replace (basename (fst e)) (basename ''proj/v0001'') ''v0002'',
        snd e)) ?files
    = [(''proj/v0002/v0002_0_notes.md'', FileNode ''# Notes, draft one''),
       (''proj/v0002/v0002_scene0001.md'', FileNode ''# Scene 1'')]"
    by code_simp
  have t: "toString (1 + 1) = ''2''"
    by code_simp
  from duplicateVersionFolder_copies [OF uniq inner n new dir free files names refl, THEN conjunct1]
  show ?thesis
    unfolding copies t by simp
qed

end
